theory Spec2Isabelle
  imports Main "HOL-Library.Sublist"
begin

section \<open>Coordinate model (pandasxl/layout.py, class CellPosition)\<close>

text \<open>
  A cell position stores zero-based coordinates. Python integers are unbounded, so the
  coordinates are of type \<open>int\<close>.
\<close>

record cell_position =
  cp_x :: int
  cp_y :: int

text \<open>The constructor \<open>CellPosition.__init__(x, y, excel_based)\<close>.\<close>

definition CellPosition :: "int \<Rightarrow> int \<Rightarrow> bool \<Rightarrow> cell_position" where
  "CellPosition x y excel_based =
     (if excel_based then \<lparr>cp_x = x - 1, cp_y = y - 1\<rparr> else \<lparr>cp_x = x, cp_y = y\<rparr>)"

definition excel_x :: "cell_position \<Rightarrow> int" where
  "excel_x p = cp_x p + 1"

definition excel_y :: "cell_position \<Rightarrow> int" where
  "excel_y p = cp_y p + 1"


text \<open>\<open>CellPosition.__eq__\<close> applied to two cell positions.\<close>

definition cell_eq :: "cell_position \<Rightarrow> cell_position \<Rightarrow> bool" where
  "cell_eq a b = (cp_x a = cp_x b \<and> cp_y a = cp_y b)"

section \<open>Region layout (pandasxl/layout.py, BaseLayout, AxisLayout, TableLayout)\<close>

record base_layout =
  width :: int
  height :: int
  position :: cell_position

record axis_layout = base_layout +
  has_names :: bool

definition BaseLayout :: "int \<Rightarrow> int \<Rightarrow> int \<Rightarrow> int \<Rightarrow> base_layout" where
  "BaseLayout w h x_offset y_offset =
     \<lparr>width = w, height = h, position = CellPosition x_offset y_offset False\<rparr>"

definition AxisLayout :: "int \<Rightarrow> int \<Rightarrow> bool \<Rightarrow> int \<Rightarrow> int \<Rightarrow> axis_layout" where
  "AxisLayout w h names x_offset y_offset =
     \<lparr>width = w, height = h, position = CellPosition x_offset y_offset False,
      has_names = names\<rparr>"

definition x_start :: "'a base_layout_scheme \<Rightarrow> int" where
  "x_start l = cp_x (position l)"

definition y_start :: "'a base_layout_scheme \<Rightarrow> int" where
  "y_start l = cp_y (position l)"

definition x_end :: "'a base_layout_scheme \<Rightarrow> int" where
  "x_end l = x_start l + width l - 1"

definition y_end :: "'a base_layout_scheme \<Rightarrow> int" where
  "y_end l = y_start l + height l - 1"

definition cell_at :: "'a base_layout_scheme \<Rightarrow> int \<Rightarrow> int \<Rightarrow> cell_position" where
  "cell_at l x_offset y_offset =
     CellPosition (x_start l + x_offset) (y_start l + y_offset) False"

record table_layout =
  tl_position :: cell_position
  index_width :: int
  index_height :: int
  column_width :: int
  column_height :: int
  has_index_names :: bool
  has_column_names :: bool
  columns :: axis_layout
  index :: axis_layout
  index_names :: base_layout
  column_names :: base_layout
  data_layout :: base_layout

text \<open>
  The \<open>_create_*\<close> methods read attributes of \<open>self\<close> that were set before they are
  called; each one takes those attributes as arguments.
\<close>

definition create_column_layout ::
  "cell_position \<Rightarrow> int \<Rightarrow> int \<Rightarrow> int \<Rightarrow> bool \<Rightarrow> axis_layout" where
  "create_column_layout pos iw cw ch hcn =
     AxisLayout cw ch hcn (cp_x pos + iw) (cp_y pos)"

definition create_index_layout ::
  "cell_position \<Rightarrow> int \<Rightarrow> int \<Rightarrow> int \<Rightarrow> bool \<Rightarrow> axis_layout" where
  "create_index_layout pos iw ih ch hin =
     (let additional_y_offset = (if hin then 1 else 0)
      in AxisLayout iw ih hin (cp_x pos) (cp_y pos + ch + additional_y_offset))"

definition create_data_layout :: "axis_layout \<Rightarrow> axis_layout \<Rightarrow> base_layout" where
  "create_data_layout cols idx =
     BaseLayout (width cols) (height idx) (x_start cols) (y_start idx)"

definition create_index_names_layout :: "axis_layout \<Rightarrow> bool \<Rightarrow> base_layout" where
  "create_index_names_layout idx hin =
     BaseLayout (width idx) (if hin then 1 else 0) (x_start idx)
       (y_start idx - (if hin then 1 else 0))"

definition create_column_names_layout :: "axis_layout \<Rightarrow> bool \<Rightarrow> base_layout" where
  "create_column_names_layout cols hcn =
     BaseLayout (if hcn then 1 else 0) (height cols)
       (x_start cols - (if hcn then 1 else 0)) (y_start cols)"

text \<open>
  \<open>TableLayout.__init__\<close> followed by \<open>_init_layouts\<close>: the axis regions first, then
  the name regions, then the data region.
\<close>

definition TableLayout ::
  "int \<Rightarrow> int \<Rightarrow> int \<Rightarrow> int \<Rightarrow> bool \<Rightarrow> bool \<Rightarrow> int \<Rightarrow> int \<Rightarrow> table_layout" where
  "TableLayout iw ih cw ch hin hcn x_offset y_offset =
     (let pos = CellPosition x_offset y_offset False;
          cols = create_column_layout pos iw cw ch hcn;
          idx = create_index_layout pos iw ih ch hin;
          inames = create_index_names_layout idx hin;
          cnames = create_column_names_layout cols hcn;
          dl = create_data_layout cols idx
      in \<lparr>tl_position = pos, index_width = iw, index_height = ih, column_width = cw,
          column_height = ch, has_index_names = hin, has_column_names = hcn,
          columns = cols, index = idx, index_names = inames, column_names = cnames,
          data_layout = dl\<rparr>)"

definition total_width :: "table_layout \<Rightarrow> int" where
  "total_width t = width (index t) + width (data_layout t)"

definition total_height :: "table_layout \<Rightarrow> int" where
  "total_height t = height (columns t) + height (index_names t) + height (index t)"

section \<open>Keys and axes\<close>

text \<open>
  A key of an axis is a scalar or a tuple of scalars. The scalars of the model are
  Python's \<open>None\<close>, strings and integers; floating-point values are outside the model.
  Equality of keys is Python's \<open>==\<close> on these values.
\<close>

datatype scalar = SNone | SStr string | SInt int

datatype label = Scalar scalar | Tuple "scalar list"

text \<open>
  A pandas index: a flat \<open>Index\<close> of scalars, or a \<open>MultiIndex\<close> with its number of
  levels and its tuples. Iterating yields the labels in order.
\<close>

datatype pd_index = Index "scalar list" | MultiIndex nat "scalar list list"

fun labels :: "pd_index \<Rightarrow> label list" where
  "labels (Index vs) = map Scalar vs"
| "labels (MultiIndex n ts) = map Tuple ts"


datatype cellval = NumVal int | TextVal string | NA

text \<open>
  A data frame: the two axes with their names, and the cell values by position
  (\<open>df.iloc[i, j]\<close>, read only at positions inside the frame).
\<close>

record dataframe =
  df_index :: pd_index
  df_index_names :: "string option list"
  df_columns :: pd_index
  df_columns_names :: "string option list"
  df_iloc :: "nat \<Rightarrow> nat \<Rightarrow> cellval"


section \<open>Span detector (flatbreadxl/spans.py)\<close>

record span =
  span_start :: nat
  span_value :: label
  span_count :: nat

text \<open>
  The loop of \<open>get_contiguous_spans\<close>: \<open>i\<close> is the position of the next value, and
  \<open>spans\<close>, \<open>prev\<close>, \<open>start_idx\<close> are the loop's variables.
\<close>

fun spans_loop ::
  "nat \<Rightarrow> label list \<Rightarrow> span list \<Rightarrow> label \<Rightarrow> nat \<Rightarrow> span list \<times> label \<times> nat" where
  "spans_loop i [] spans prev start_idx = (spans, prev, start_idx)"
| "spans_loop i (v # vs) spans prev start_idx =
     (if v \<noteq> prev
      then spans_loop (Suc i) vs
             (if i > 0
              then spans @ [\<lparr>span_start = start_idx, span_value = prev,
                             span_count = i - start_idx\<rparr>]
              else spans)
             v i
      else spans_loop (Suc i) vs spans prev start_idx)"

definition get_contiguous_spans :: "label list \<Rightarrow> span list" where
  "get_contiguous_spans vals =
     (case spans_loop 0 vals [] (Scalar SNone) 0 of
        (spans, prev, start_idx) \<Rightarrow>
          if length vals > 0
          then spans @ [\<lparr>span_start = start_idx, span_value = prev,
                          span_count = length vals - start_idx\<rparr>]
          else spans)"

text \<open>\<open>get_level_spans(index, max_level)\<close>; \<open>idx[:level+1]\<close> is \<open>take (level + 1) idx\<close>.\<close>

fun get_level_spans :: "pd_index \<Rightarrow> nat option \<Rightarrow> span list list" where
  "get_level_spans (Index vs) max_level = [get_contiguous_spans (map Scalar vs)]"
| "get_level_spans (MultiIndex n ts) max_level =
     (let n_levels = (case max_level of Some m \<Rightarrow> m | None \<Rightarrow> n)
      in map (\<lambda>level. get_contiguous_spans (map (\<lambda>idx. Tuple (take (level + 1) idx)) ts))
           [0..<n_levels])"

text \<open>Expanding spans back into the sequence they describe.\<close>

definition expand_spans :: "span list \<Rightarrow> label list" where
  "expand_spans spans = concat (map (\<lambda>s. replicate (span_count s) (span_value s)) spans)"

text \<open>
  Spans that follow each other from position \<open>s\<close>: each starts where the previous one
  ended and covers at least one position.
\<close>

fun consecutive_from :: "nat \<Rightarrow> span list \<Rightarrow> bool" where
  "consecutive_from s [] = True"
| "consecutive_from s (x # xs) =
     (span_start x = s \<and> 0 < span_count x \<and> consecutive_from (s + span_count x) xs)"

section \<open>Merge-range deriver (flatbreadxl/spans.py)\<close>

text \<open>A merge range \<open>(start_row, start_col, end_row, end_col)\<close>, one-based, inclusive.\<close>

type_synonym MergeRange = "int \<times> int \<times> int \<times> int"

text \<open>
  The test of \<open>MergeManager.is_merged_cell\<close> for one range: the cell \<open>(row, col)\<close>
  lies in the range.
\<close>

fun covers :: "MergeRange \<Rightarrow> int \<times> int \<Rightarrow> bool" where
  "covers (start_row, start_col, end_row, end_col) (row, col) =
     (start_row \<le> row \<and> row \<le> end_row \<and> start_col \<le> col \<and> col \<le> end_col)"

text \<open>The body of the inner loop of \<open>get_merge_ranges_from_spans\<close> for one span.\<close>

definition span_merge_range ::
  "'a base_layout_scheme \<Rightarrow> bool \<Rightarrow> nat \<Rightarrow> span \<Rightarrow> MergeRange list \<Rightarrow> MergeRange list" where
  "span_merge_range layout is_row_index level sp merge_ranges =
     (if span_count sp > 1
      then (if is_row_index
            then (let cell_start = cell_at layout (int level) (int (span_start sp));
                      cell_end = cell_at layout (int level)
                                   (int (span_start sp) + int (span_count sp) - 1)
                  in merge_ranges @ [(excel_y cell_start, excel_x cell_start,
                                      excel_y cell_end, excel_x cell_start)])
            else (let cell_start = cell_at layout (int (span_start sp)) (int level);
                      cell_end = cell_at layout
                                   (int (span_start sp) + int (span_count sp) - 1) (int level)
                  in merge_ranges @ [(excel_y cell_start, excel_x cell_start,
                                      excel_y cell_start, excel_x cell_end)]))
      else merge_ranges)"

fun level_spans_loop ::
  "'a base_layout_scheme \<Rightarrow> bool \<Rightarrow> nat \<Rightarrow> span list \<Rightarrow> MergeRange list \<Rightarrow> MergeRange list" where
  "level_spans_loop layout is_row_index level [] merge_ranges = merge_ranges"
| "level_spans_loop layout is_row_index level (sp # rest) merge_ranges =
     level_spans_loop layout is_row_index level rest
       (span_merge_range layout is_row_index level sp merge_ranges)"

fun levels_loop ::
  "'a base_layout_scheme \<Rightarrow> bool \<Rightarrow> nat \<Rightarrow> span list list \<Rightarrow> MergeRange list \<Rightarrow> MergeRange list" where
  "levels_loop layout is_row_index level [] merge_ranges = merge_ranges"
| "levels_loop layout is_row_index level (level_spans # rest) merge_ranges =
     levels_loop layout is_row_index (Suc level) rest
       (level_spans_loop layout is_row_index level level_spans merge_ranges)"

definition get_merge_ranges_from_spans ::
  "span list list \<Rightarrow> 'a base_layout_scheme \<Rightarrow> bool \<Rightarrow> MergeRange list" where
  "get_merge_ranges_from_spans spans layout is_row_index =
     levels_loop layout is_row_index 0 spans []"

text \<open>\<open>pd.isna(value) or value == ''\<close> on a scalar of the model.\<close>

definition is_blank :: "scalar \<Rightarrow> bool" where
  "is_blank v = (v = SNone \<or> v = SStr [])"

text \<open>
  The merge range that \<open>get_empty_spans\<close> appends: from the index cell at level
  \<open>first_level\<close> to the index cell at level \<open>last_level\<close>, both on row \<open>i\<close>.
\<close>

definition empty_span_range :: "table_layout \<Rightarrow> nat \<Rightarrow> int \<Rightarrow> int \<Rightarrow> MergeRange" where
  "empty_span_range layout i first_level last_level =
     (let start_cell = cell_at (index layout) first_level (int i);
          end_cell = cell_at (index layout) last_level (int i)
      in (excel_y start_cell, excel_x start_cell, excel_y end_cell, excel_x end_cell))"

text \<open>
  The inner loop of \<open>get_empty_spans\<close> over \<open>range(1, len(idx))\<close>: the list holds the
  components from \<open>level\<close> on.
\<close>

fun empty_levels_loop ::
  "table_layout \<Rightarrow> nat \<Rightarrow> nat \<Rightarrow> scalar list \<Rightarrow> nat option \<Rightarrow> nat \<Rightarrow> MergeRange list
     \<Rightarrow> nat option \<times> nat \<times> MergeRange list" where
  "empty_levels_loop layout i level [] span_start' last_non_empty merge_ranges =
     (span_start', last_non_empty, merge_ranges)"
| "empty_levels_loop layout i level (v # vs) span_start' last_non_empty merge_ranges =
     (if is_blank v
      then empty_levels_loop layout i (Suc level) vs
             (if span_start' = None then Some level else span_start')
             last_non_empty merge_ranges
      else empty_levels_loop layout i (Suc level) vs None level
             (if span_start' \<noteq> None
              then merge_ranges
                     @ [empty_span_range layout i (int last_non_empty) (int level - 1)]
              else merge_ranges))"

text \<open>The body of the outer loop for the row at position \<open>i\<close> with key \<open>idx\<close>.\<close>

definition empty_row_step ::
  "table_layout \<Rightarrow> nat \<Rightarrow> nat \<Rightarrow> scalar list \<Rightarrow> MergeRange list \<Rightarrow> MergeRange list" where
  "empty_row_step layout n i idx merge_ranges =
     (case empty_levels_loop layout i 1 (drop 1 idx) None 0 merge_ranges of
        (span_start', last_non_empty, merge_ranges') \<Rightarrow>
          if span_start' \<noteq> None
          then merge_ranges' @ [empty_span_range layout i (int last_non_empty) (int n - 1)]
          else merge_ranges')"

fun empty_rows_loop ::
  "table_layout \<Rightarrow> nat \<Rightarrow> nat \<Rightarrow> scalar list list \<Rightarrow> MergeRange list \<Rightarrow> MergeRange list" where
  "empty_rows_loop layout n i [] merge_ranges = merge_ranges"
| "empty_rows_loop layout n i (idx # rest) merge_ranges =
     empty_rows_loop layout n (Suc i) rest (empty_row_step layout n i idx merge_ranges)"

definition get_empty_spans :: "dataframe \<Rightarrow> table_layout \<Rightarrow> MergeRange list" where
  "get_empty_spans df layout =
     (case df_index df of
        Index vs \<Rightarrow> []
      | MultiIndex n ts \<Rightarrow> empty_rows_loop layout n 0 ts [])"

text \<open>
  \<open>get_all_merge_ranges\<close> concatenates three lists: the row-header merges, the
  column-header merges and the merges of blank components.
\<close>

definition row_merges :: "dataframe \<Rightarrow> table_layout \<Rightarrow> MergeRange list" where
  "row_merges df layout =
     get_merge_ranges_from_spans (get_level_spans (df_index df) None) (index layout) True"

definition column_merges :: "dataframe \<Rightarrow> table_layout \<Rightarrow> MergeRange list" where
  "column_merges df layout =
     get_merge_ranges_from_spans (get_level_spans (df_columns df) None) (columns layout) False"

definition get_all_merge_ranges :: "dataframe \<Rightarrow> table_layout \<Rightarrow> MergeRange list" where
  "get_all_merge_ranges df layout =
     row_merges df layout @ column_merges df layout @ get_empty_spans df layout"

section \<open>Pattern matcher (pandasxl/pattern.py)\<close>

fun is_tuple :: "label \<Rightarrow> bool" where
  "is_tuple (Tuple parts) = True"
| "is_tuple (Scalar v) = False"

text \<open>
  \<open>isinstance(part, str) and isinstance(pattern, str) and part.startswith(pattern)\<close>.
\<close>

fun str_startswith :: "scalar \<Rightarrow> label \<Rightarrow> bool" where
  "str_startswith (SStr s) (Scalar (SStr p)) = prefix p s"
| "str_startswith part pattern = False"

fun tuple_contains_match :: "scalar list \<Rightarrow> label \<Rightarrow> bool" where
  "tuple_contains_match [] pattern = False"
| "tuple_contains_match (part # rest) pattern =
     (if Scalar part = pattern then True
      else if str_startswith part pattern then True
      else tuple_contains_match rest pattern)"

definition is_match :: "label \<Rightarrow> label \<Rightarrow> bool" where
  "is_match lbl pattern =
     (if is_tuple pattern \<and> is_tuple lbl \<and> lbl = pattern then True
      else if \<not> is_tuple pattern
           then (if lbl = pattern then True
                 else (case lbl of
                         Tuple parts \<Rightarrow> tuple_contains_match parts pattern
                       | Scalar v \<Rightarrow> False))
           else False)"

fun find_match :: "label \<Rightarrow> (label \<times> 'v) list \<Rightarrow> 'v option" where
  "find_match lbl [] = None"
| "find_match lbl ((pattern, v) # rest) =
     (if is_match lbl pattern then Some v else find_match lbl rest)"

section \<open>Merge manager (pandasxl/merge.py)\<close>



record 'ws merge_manager =
  worksheet :: 'ws
  applied_merges :: "MergeRange list"



fun is_merged_cell :: "'ws merge_manager \<Rightarrow> int \<Rightarrow> int \<Rightarrow> bool" where
  "is_merged_cell m row col = list_ex (\<lambda>r. covers r (row, col)) (applied_merges m)"


text \<open>
  A sink for concrete runs: its worksheet is the list of merged ranges, and it raises
  \<open>ValueError\<close> for a range that shares a cell with one of them.
\<close>

fun ranges_overlap :: "MergeRange \<Rightarrow> MergeRange \<Rightarrow> bool" where
  "ranges_overlap (sr, sc, er, ec) (sr', sc', er', ec') =
     (max sr sr' \<le> min er er' \<and> max sc sc' \<le> min ec ec')"



section \<open>Grid writer (pandasxl/table/writer.py)\<close>






text \<open>
  The loops of \<open>_process_number_formats\<close> over the labels of one axis; \<open>i\<close> is the
  position of the next label. Every position lies inside the list of formats, which has
  one entry per label.
\<close>

fun formats_loop ::
  "nat \<Rightarrow> label list \<Rightarrow> (label \<times> string) list \<Rightarrow> string option list \<Rightarrow> string option list" where
  "formats_loop i [] patterns formats = formats"
| "formats_loop i (lbl # rest) patterns formats =
     (case find_match lbl patterns of
        Some m \<Rightarrow> formats_loop (Suc i) rest patterns (formats[i := Some m])
      | None \<Rightarrow> formats_loop (Suc i) rest patterns formats)"












section \<open>Runs of blank components\<close>

text \<open>
  The maximal runs of blank components of a key, as pairs of the first and the last level
  of the run. \<open>blank_runs_from level vs\<close> reads the components \<open>vs\<close>, the first of which is
  at \<open>level\<close>; the runs of a key are those among its levels from 1 on, since
  \<open>get_empty_spans\<close> never tests level 0.
\<close>

function blank_runs_from :: "nat \<Rightarrow> scalar list \<Rightarrow> (nat \<times> nat) list" where
  "blank_runs_from level [] = []"
| "blank_runs_from level (v # vs) =
     (if is_blank v
      then (level, level + length (takeWhile is_blank vs))
             # blank_runs_from (Suc level + length (takeWhile is_blank vs))
                 (dropWhile is_blank vs)
      else blank_runs_from (Suc level) vs)"
  by pat_completeness auto
termination
  by (relation "measure (\<lambda>(level, vs). length vs)")
    (auto simp: less_Suc_eq_le length_dropWhile_le)

definition blank_runs :: "scalar list \<Rightarrow> (nat \<times> nat) list" where
  "blank_runs idx = blank_runs_from 1 (drop 1 idx)"

text \<open>
  The range that merges a run of blank levels on row \<open>i\<close> into the cell of the level
  before the run.
\<close>

fun run_range :: "table_layout \<Rightarrow> nat \<Rightarrow> nat \<times> nat \<Rightarrow> MergeRange" where
  "run_range layout i (first_level, last_level) =
     empty_span_range layout i (int first_level - 1) (int last_level)"

text \<open>The rows of a list paired with their positions, as \<open>enumerate\<close> yields them.\<close>

fun enumerate_from :: "nat \<Rightarrow> 'a list \<Rightarrow> (nat \<times> 'a) list" where
  "enumerate_from i [] = []"
| "enumerate_from i (x # xs) = (i, x) # enumerate_from (Suc i) xs"

section \<open>Theorems\<close>

text \<open>
  C10: a zero-based coordinate \<open>(x, y)\<close> exposes the one-based coordinates \<open>x + 1\<close> and
  \<open>y + 1\<close>, and the coordinate rebuilt from them with the \<open>excel_based\<close> flag is equal
  to the original, both structurally and under \<open>__eq__\<close>.
\<close>

theorem cell_position_excel_roundtrip:
  "excel_x (CellPosition x y False) = x + 1
   \<and> excel_y (CellPosition x y False) = y + 1
   \<and> CellPosition (excel_x (CellPosition x y False)) (excel_y (CellPosition x y False)) True
       = CellPosition x y False
   \<and> cell_eq (CellPosition (excel_x (CellPosition x y False))
                (excel_y (CellPosition x y False)) True)
        (CellPosition x y False)"
  by (simp add: CellPosition_def excel_x_def excel_y_def cell_eq_def)

text \<open>
  C7: the layout built for 2 index levels, 3 rows, 1 column level, 2 columns, index names
  present, column names absent and origin \<open>(0, 0)\<close> has its row-index region starting at
  row 2, and its data region at \<open>(2, 2)\<close> with width 2 and height 3.
\<close>

theorem layout_scenario:
  "y_start (index (TableLayout 2 3 2 1 True False 0 0)) = 2
   \<and> x_start (data_layout (TableLayout 2 3 2 1 True False 0 0)) = 2
   \<and> y_start (data_layout (TableLayout 2 3 2 1 True False 0 0)) = 2
   \<and> width (data_layout (TableLayout 2 3 2 1 True False 0 0)) = 2
   \<and> height (data_layout (TableLayout 2 3 2 1 True False 0 0)) = 3"
  by (simp add: TableLayout_def Let_def create_column_layout_def create_index_layout_def
      create_data_layout_def AxisLayout_def BaseLayout_def CellPosition_def
      x_start_def y_start_def)

text \<open>
  C8: for all dimensions and name flags, the total width of the constructed layout is the
  width of the index region plus the width of the data region, and the total height is the
  height of the column region plus one row when index names are present plus the height of
  the index region. In terms of the constructor's arguments these are
  \<open>index_width + column_width\<close> and \<open>column_height + (1 or 0) + index_height\<close>.
\<close>

theorem table_layout_totals:
  "total_width (TableLayout iw ih cw ch hin hcn xo yo)
     = width (index (TableLayout iw ih cw ch hin hcn xo yo))
       + width (data_layout (TableLayout iw ih cw ch hin hcn xo yo))
   \<and> total_height (TableLayout iw ih cw ch hin hcn xo yo)
     = height (columns (TableLayout iw ih cw ch hin hcn xo yo))
       + (if hin then 1 else 0)
       + height (index (TableLayout iw ih cw ch hin hcn xo yo))
   \<and> total_width (TableLayout iw ih cw ch hin hcn xo yo) = iw + cw
   \<and> total_height (TableLayout iw ih cw ch hin hcn xo yo) = ch + (if hin then 1 else 0) + ih"
  by (simp add: total_width_def total_height_def TableLayout_def Let_def
      create_column_layout_def create_index_layout_def create_data_layout_def
      create_index_names_layout_def AxisLayout_def BaseLayout_def)

subsection \<open>Span detector\<close>

lemma consecutive_from_append:
  "consecutive_from s (xs @ ys)
     = (consecutive_from s xs \<and> consecutive_from (s + sum_list (map span_count xs)) ys)"
  by (induction xs arbitrary: s) (auto simp: add.assoc)

lemma expand_spans_snoc:
  "expand_spans (xs @ [x]) = expand_spans xs @ replicate (span_count x) (span_value x)"
  by (simp add: expand_spans_def)

lemma spans_loop_inv:
  assumes "consecutive_from 0 spans"
    and "sum_list (map span_count spans) = start_idx"
    and "start_idx \<le> i"
    and "0 < i \<Longrightarrow> start_idx < i"
    and "spans_loop i vs spans prev start_idx = (spans', prev', start')"
  shows "consecutive_from 0 spans'
     \<and> sum_list (map span_count spans') = start'
     \<and> start' \<le> i + length vs
     \<and> (0 < i + length vs \<longrightarrow> start' < i + length vs)
     \<and> expand_spans spans' @ replicate (i + length vs - start') prev'
         = expand_spans spans @ replicate (i - start_idx) prev @ vs"
  using assms
proof (induction vs arbitrary: i spans prev start_idx)
  case Nil
  then show ?case by simp
next
  case (Cons v vs)
  show ?case
  proof (cases "v \<noteq> prev")
    case False
    with Cons.prems have run: "spans_loop (Suc i) vs spans prev start_idx = (spans', prev', start')"
      by simp
    have le: "start_idx \<le> Suc i" and lt: "start_idx < Suc i"
      using Cons.prems(3) by simp_all
    have rep: "replicate (Suc i - start_idx) prev = replicate (i - start_idx) prev @ [prev]"
      using Cons.prems(3) by (simp add: Suc_diff_le replicate_append_same)
    from Cons.IH[OF Cons.prems(1) Cons.prems(2) le lt run] rep False
    show ?thesis by simp
  next
    case True
    show ?thesis
    proof (cases "0 < i")
      case True
      let ?sp = "\<lparr>span_start = start_idx, span_value = prev, span_count = i - start_idx\<rparr>"
      from Cons.prems \<open>v \<noteq> prev\<close> True
      have run: "spans_loop (Suc i) vs (spans @ [?sp]) v i = (spans', prev', start')"
        by simp
      have c: "consecutive_from 0 (spans @ [?sp])"
        using Cons.prems(1,2,4) True by (simp add: consecutive_from_append)
      have s: "sum_list (map span_count (spans @ [?sp])) = i"
        using Cons.prems(2,3) by simp
      from Cons.IH[OF c s _ _ run]
      show ?thesis by (simp add: expand_spans_snoc)
    next
      case False
      then have i0: "i = 0" by simp
      from Cons.prems \<open>v \<noteq> prev\<close> i0
      have run: "spans_loop (Suc i) vs spans v i = (spans', prev', start')"
        by simp
      have s: "sum_list (map span_count spans) = i"
        using Cons.prems(2,3) i0 by simp
      from Cons.IH[OF Cons.prems(1) s _ _ run] i0 Cons.prems(3)
      show ?thesis by simp
    qed
  qed
qed

lemma get_contiguous_spans_props:
  "consecutive_from 0 (get_contiguous_spans vals)
   \<and> sum_list (map span_count (get_contiguous_spans vals)) = length vals
   \<and> expand_spans (get_contiguous_spans vals) = vals"
proof (cases "spans_loop 0 vals [] (Scalar SNone) 0")
  case (fields spans' prev' start')
  have inv: "consecutive_from 0 spans'
     \<and> sum_list (map span_count spans') = start'
     \<and> start' \<le> 0 + length vals
     \<and> (0 < 0 + length vals \<longrightarrow> start' < 0 + length vals)
     \<and> expand_spans spans' @ replicate (0 + length vals - start') prev'
         = expand_spans [] @ replicate (0 - 0) (Scalar SNone) @ vals"
    by (rule spans_loop_inv[OF _ _ _ _ fields]) simp_all
  show ?thesis
  proof (cases "vals = []")
    case True
    then show ?thesis by (simp add: get_contiguous_spans_def expand_spans_def)
  next
    case False
    with inv fields show ?thesis
      by (simp add: get_contiguous_spans_def consecutive_from_append expand_spans_snoc
          expand_spans_def)
  qed
qed


lemma consecutive_from_lower: "consecutive_from s xs \<Longrightarrow> x \<in> set xs \<Longrightarrow> s \<le> span_start x"
  by (induction xs arbitrary: s) fastforce+

lemma consecutive_from_positive: "consecutive_from s xs \<Longrightarrow> x \<in> set xs \<Longrightarrow> 0 < span_count x"
  by (induction xs arbitrary: s) auto

lemma consecutive_from_sorted:
  "consecutive_from s xs \<Longrightarrow> sorted_wrt (\<lambda>a b. span_start a + span_count a \<le> span_start b) xs"
proof (induction xs arbitrary: s)
  case Nil
  then show ?case by simp
next
  case (Cons x xs)
  then have "\<forall>b\<in>set xs. span_start x + span_count x \<le> span_start b"
    using consecutive_from_lower[of "s + span_count x" xs] by auto
  with Cons show ?case by auto
qed

lemma consecutive_from_nth:
  "consecutive_from s xs \<Longrightarrow> Suc k < length xs
     \<Longrightarrow> span_start (xs ! Suc k) = span_start (xs ! k) + span_count (xs ! k)"
proof (induction xs arbitrary: s k)
  case Nil
  then show ?case by simp
next
  case (Cons x xs)
  show ?case
  proof (cases k)
    case 0
    with Cons.prems show ?thesis by (cases xs) auto
  next
    case (Suc j)
    with Cons.prems Cons.IH[of "s + span_count x" j] show ?thesis by simp
  qed
qed

lemma consecutive_from_hd: "consecutive_from s xs \<Longrightarrow> xs \<noteq> [] \<Longrightarrow> span_start (hd xs) = s"
  by (cases xs) auto

lemma get_level_spans_props:
  assumes "spans \<in> set (get_level_spans idx max_level)"
  shows "consecutive_from 0 spans \<and> sum_list (map span_count spans) = length (labels idx)"
proof (cases idx)
  case (Index vs)
  with assms have "spans = get_contiguous_spans (map Scalar vs)" by simp
  with Index get_contiguous_spans_props[of "map Scalar vs"] show ?thesis by simp
next
  case (MultiIndex n ts)
  with assms obtain level where
    "spans = get_contiguous_spans (map (\<lambda>idx. Tuple (take (level + 1) idx)) ts)"
    by (auto simp: Let_def)
  with MultiIndex get_contiguous_spans_props[of "map (\<lambda>idx. Tuple (take (level + 1) idx)) ts"]
  show ?thesis by simp
qed

text \<open>
  C4: the spans of a key sequence partition its positions. The empty sequence has no spans.
  For a non-empty sequence the first span starts at 0; each further span starts where the
  previous one ends (its start plus its count); every count is positive; the spans are
  ordered by start and do not overlap; and the counts add up to the length of the sequence.
  The same holds for the spans of every level returned by \<open>get_level_spans\<close>.
\<close>

theorem span_partition:
  "get_contiguous_spans [] = []
   \<and> (vals \<noteq> [] \<longrightarrow> get_contiguous_spans vals \<noteq> []
         \<and> span_start (hd (get_contiguous_spans vals)) = 0)
   \<and> (\<forall>k. Suc k < length (get_contiguous_spans vals) \<longrightarrow>
         span_start (get_contiguous_spans vals ! Suc k)
           = span_start (get_contiguous_spans vals ! k)
             + span_count (get_contiguous_spans vals ! k))
   \<and> (\<forall>sp \<in> set (get_contiguous_spans vals). 0 < span_count sp)
   \<and> sorted_wrt (\<lambda>a b. span_start a + span_count a \<le> span_start b)
        (get_contiguous_spans vals)
   \<and> sum_list (map span_count (get_contiguous_spans vals)) = length vals
   \<and> (\<forall>spans \<in> set (get_level_spans idx max_level).
         consecutive_from 0 spans
         \<and> sorted_wrt (\<lambda>a b. span_start a + span_count a \<le> span_start b) spans
         \<and> sum_list (map span_count spans) = length (labels idx))"
proof -
  let ?r = "get_contiguous_spans vals"
  have c: "consecutive_from 0 ?r" and s: "sum_list (map span_count ?r) = length vals"
    using get_contiguous_spans_props[of vals] by simp_all
  have e: "get_contiguous_spans [] = []"
    by (simp add: get_contiguous_spans_def)
  have ne: "vals \<noteq> [] \<longrightarrow> ?r \<noteq> [] \<and> span_start (hd ?r) = 0"
  proof
    assume "vals \<noteq> []"
    with s have "?r \<noteq> []" by auto
    with c show "?r \<noteq> [] \<and> span_start (hd ?r) = 0"
      by (simp add: consecutive_from_hd)
  qed
  have n: "\<forall>k. Suc k < length ?r \<longrightarrow>
      span_start (?r ! Suc k) = span_start (?r ! k) + span_count (?r ! k)"
    using c by (simp add: consecutive_from_nth)
  have p: "\<forall>sp \<in> set ?r. 0 < span_count sp"
    using c consecutive_from_positive by blast
  have o: "sorted_wrt (\<lambda>a b. span_start a + span_count a \<le> span_start b) ?r"
    using c by (rule consecutive_from_sorted)
  have l: "\<forall>spans \<in> set (get_level_spans idx max_level).
         consecutive_from 0 spans
         \<and> sorted_wrt (\<lambda>a b. span_start a + span_count a \<le> span_start b) spans
         \<and> sum_list (map span_count spans) = length (labels idx)"
    using get_level_spans_props consecutive_from_sorted by blast
  from e ne n p o s l show ?thesis by blast
qed

theorem span_partition_witness:
  "get_contiguous_spans [Tuple [SStr ''A''], Tuple [SStr ''A''], Tuple [SStr ''B'']]
     = [\<lparr>span_start = 0, span_value = Tuple [SStr ''A''], span_count = 2\<rparr>,
        \<lparr>span_start = 2, span_value = Tuple [SStr ''B''], span_count = 1\<rparr>]
   \<and> span_start (hd (get_contiguous_spans
        [Tuple [SStr ''A''], Tuple [SStr ''A''], Tuple [SStr ''B'']])) = 0
   \<and> sum_list (map span_count (get_contiguous_spans
        [Tuple [SStr ''A''], Tuple [SStr ''A''], Tuple [SStr ''B'']])) = 3
   \<and> get_level_spans (MultiIndex 2 [[SStr ''A'', SInt 1], [SStr ''A'', SInt 2], [SStr ''B'', SInt 1]]) None
     = [[\<lparr>span_start = 0, span_value = Tuple [SStr ''A''], span_count = 2\<rparr>,
         \<lparr>span_start = 2, span_value = Tuple [SStr ''B''], span_count = 1\<rparr>],
        [\<lparr>span_start = 0, span_value = Tuple [SStr ''A'', SInt 1], span_count = 1\<rparr>,
         \<lparr>span_start = 1, span_value = Tuple [SStr ''A'', SInt 2], span_count = 1\<rparr>,
         \<lparr>span_start = 2, span_value = Tuple [SStr ''B'', SInt 1], span_count = 1\<rparr>]]"
  using span_partition[of "[Tuple [SStr ''A''], Tuple [SStr ''A''], Tuple [SStr ''B'']]"
      "MultiIndex 2 [[SStr ''A'', SInt 1], [SStr ''A'', SInt 2], [SStr ''B'', SInt 1]]" None]
  by (simp add: get_contiguous_spans_def Let_def upt_rec)

text \<open>
  C5: expanding every span into \<open>count\<close> repetitions of its value and concatenating the
  expansions in order gives back the key sequence.
\<close>

theorem span_roundtrip: "expand_spans (get_contiguous_spans vals) = vals"
  using get_contiguous_spans_props[of vals] by simp

subsection \<open>Pattern matcher\<close>

lemma tuple_contains_match_iff:
  "tuple_contains_match parts pattern
     = (\<exists>part \<in> set parts. Scalar part = pattern \<or> str_startswith part pattern)"
  by (induction parts) auto

text \<open>
  C2, as the code has it: a scalar string label matches a string pattern exactly when the
  two are equal. The prefix test applies to the components of a tuple label only: a tuple
  label matches a string pattern exactly when one of its components equals the pattern or
  is a string that starts with it.
\<close>

theorem is_match_string_pattern:
  "is_match (Scalar (SStr s)) (Scalar (SStr p)) = (s = p)
   \<and> is_match (Tuple parts) (Scalar (SStr p))
       = (\<exists>part \<in> set parts. part = SStr p \<or> (\<exists>t. part = SStr t \<and> prefix p t))
   \<and> (SStr t \<in> set parts \<and> prefix p t \<longrightarrow> is_match (Tuple parts) (Scalar (SStr p)))"
proof -
  have a: "is_match (Scalar (SStr s)) (Scalar (SStr p)) = (s = p)"
    by (simp add: is_match_def)
  have s: "str_startswith part (Scalar (SStr p)) = (\<exists>t. part = SStr t \<and> prefix p t)" for part
    by (cases part) simp_all
  have b: "is_match (Tuple parts) (Scalar (SStr p))
       = (\<exists>part \<in> set parts. part = SStr p \<or> (\<exists>t. part = SStr t \<and> prefix p t))"
    by (simp add: is_match_def tuple_contains_match_iff s)
  from a b show ?thesis by blast
qed

theorem is_match_string_pattern_witness:
  "is_match (Scalar (SStr ''EU'')) (Scalar (SStr ''EU''))
   \<and> \<not> is_match (Scalar (SStr ''EU-total'')) (Scalar (SStr ''EU''))
   \<and> is_match (Tuple [SStr ''EU-total'', SStr ''NL'']) (Scalar (SStr ''EU''))"
proof -
  have h: "SStr ''EU-total'' \<in> set [SStr ''EU-total'', SStr ''NL''] \<and> prefix ''EU'' ''EU-total''"
    by simp
  from is_match_string_pattern[of "''EU''" "''EU''" "[SStr ''EU-total'', SStr ''NL'']" "''EU-total''"]
    is_match_string_pattern[of "''EU-total''" "''EU''" "[]" "[]"] h
  show ?thesis by simp
qed

text \<open>
  C2 as stated fails: the scalar label \<open>EU-total\<close> starts with the pattern \<open>EU\<close>, and
  \<open>is_match\<close> returns \<open>False\<close>.
\<close>

theorem is_match_scalar_prefix_counterexample:
  "prefix ''EU'' ''EU-total''
   \<and> \<not> is_match (Scalar (SStr ''EU-total'')) (Scalar (SStr ''EU''))"
  by (simp add: is_match_def)

subsection \<open>Merge manager\<close>






subsection \<open>Grid writer\<close>

lemma formats_loop_length: "length (formats_loop i ls ps fmts) = length fmts"
  by (induction ls arbitrary: i fmts) (auto split: option.splits)
















subsection \<open>Merges of blank components\<close>

lemma empty_levels_loop_runs:
  assumes "E = int level + int (length vs) - 1"
  shows "(lne + 1 = level \<longrightarrow>
      (case empty_levels_loop layout i level vs None lne mr of
         (ss', lne', mr') \<Rightarrow>
           if ss' \<noteq> None then mr' @ [empty_span_range layout i (int lne') E] else mr')
      = mr @ map (run_range layout i) (blank_runs_from level vs))
   \<and> (case empty_levels_loop layout i level vs (Some s) lne mr of
         (ss', lne', mr') \<Rightarrow>
           if ss' \<noteq> None then mr' @ [empty_span_range layout i (int lne') E] else mr')
      = mr @ empty_span_range layout i (int lne)
               (int level + int (length (takeWhile is_blank vs)) - 1)
           # map (run_range layout i)
               (blank_runs_from (level + length (takeWhile is_blank vs))
                  (dropWhile is_blank vs))"
  using assms
proof (induction vs arbitrary: level lne mr s)
  case Nil
  then show ?case by simp
next
  case (Cons v vs)
  have E: "E = int (Suc level) + int (length vs) - 1"
    using Cons.prems by simp
  show ?case
  proof (cases "is_blank v")
    case True
    have k: "int (Suc level) + int (length (takeWhile is_blank vs)) - 1
               = int (level + length (takeWhile is_blank vs))"
      by simp
    have k': "int level + int (length (takeWhile is_blank (v # vs))) - 1
               = int (level + length (takeWhile is_blank vs))"
      using True by simp
    have a: "lne + 1 = level \<Longrightarrow> int level - 1 = int lne" by auto
    have b1: "(case empty_levels_loop layout i level (v # vs) (Some s) lne mr of
         (ss', lne', mr') \<Rightarrow>
           if ss' \<noteq> None then mr' @ [empty_span_range layout i (int lne') E] else mr')
      = mr @ empty_span_range layout i (int lne)
               (int level + int (length (takeWhile is_blank (v # vs))) - 1)
           # map (run_range layout i)
               (blank_runs_from (level + length (takeWhile is_blank (v # vs)))
                  (dropWhile is_blank (v # vs)))"
      unfolding k' using True conjunct2[OF Cons.IH[OF E, of lne mr s]]
      by (simp add: k)
    have a1: "lne + 1 = level \<longrightarrow>
      (case empty_levels_loop layout i level (v # vs) None lne mr of
         (ss', lne', mr') \<Rightarrow>
           if ss' \<noteq> None then mr' @ [empty_span_range layout i (int lne') E] else mr')
      = mr @ map (run_range layout i) (blank_runs_from level (v # vs))"
    proof
      assume l: "lne + 1 = level"
      show "(case empty_levels_loop layout i level (v # vs) None lne mr of
         (ss', lne', mr') \<Rightarrow>
           if ss' \<noteq> None then mr' @ [empty_span_range layout i (int lne') E] else mr')
        = mr @ map (run_range layout i) (blank_runs_from level (v # vs))"
        using True conjunct2[OF Cons.IH[OF E, of lne mr level]] a[OF l]
        by (simp add: k)
    qed
    from a1 b1 show ?thesis by blast
  next
    case False
    have a1: "(case empty_levels_loop layout i level (v # vs) None lne mr of
         (ss', lne', mr') \<Rightarrow>
           if ss' \<noteq> None then mr' @ [empty_span_range layout i (int lne') E] else mr')
      = mr @ map (run_range layout i) (blank_runs_from level (v # vs))"
      using False conjunct1[OF Cons.IH[OF E, of level mr s]] by simp
    have b1: "(case empty_levels_loop layout i level (v # vs) (Some s) lne mr of
         (ss', lne', mr') \<Rightarrow>
           if ss' \<noteq> None then mr' @ [empty_span_range layout i (int lne') E] else mr')
      = mr @ empty_span_range layout i (int lne)
               (int level + int (length (takeWhile is_blank (v # vs))) - 1)
           # map (run_range layout i)
               (blank_runs_from (level + length (takeWhile is_blank (v # vs)))
                  (dropWhile is_blank (v # vs)))"
      using False
        conjunct1[OF Cons.IH[OF E, of level
            "mr @ [empty_span_range layout i (int lne) (int level - 1)]" s]]
      by simp
    from a1 b1 show ?thesis by blast
  qed
qed

lemma empty_row_step_runs:
  assumes "length idx = n"
  shows "empty_row_step layout n i idx mr = mr @ map (run_range layout i) (blank_runs idx)"
proof (cases idx)
  case Nil
  then show ?thesis by (simp add: empty_row_step_def blank_runs_def)
next
  case (Cons a vs)
  with assms have n: "int n - 1 = int 1 + int (length vs) - 1" by auto
  from conjunct1[OF empty_levels_loop_runs[OF n, of 0 layout i mr]] Cons
  show ?thesis
    by (simp add: empty_row_step_def blank_runs_def split: prod.splits)
qed

lemma empty_rows_loop_runs:
  assumes "\<forall>idx \<in> set ts. length idx = n"
  shows "empty_rows_loop layout n i ts mr
     = mr @ concat (map (\<lambda>(k, idx). map (run_range layout k) (blank_runs idx))
                      (enumerate_from i ts))"
  using assms
proof (induction ts arbitrary: i mr)
  case Nil
  then show ?case by simp
next
  case (Cons idx ts)
  then show ?case by (simp add: empty_row_step_runs)
qed


lemma run_range_coords:
  "run_range layout i (s, e)
     = (y_start (index layout) + int i + 1, x_start (index layout) + int s,
        y_start (index layout) + int i + 1, x_start (index layout) + int e + 1)"
  by (simp add: empty_span_range_def cell_at_def CellPosition_def excel_x_def excel_y_def
      Let_def)

lemma blank_runs_from_all_blank:
  assumes "vs \<noteq> []" and "\<forall>v \<in> set vs. is_blank v"
  shows "blank_runs_from level vs = [(level, level + length vs - 1)]"
proof (cases vs)
  case Nil
  with assms(1) show ?thesis by simp
next
  case (Cons v ws)
  with assms(2) have v: "is_blank v" and t: "takeWhile is_blank ws = ws"
    and d: "dropWhile is_blank ws = []"
    by simp_all
  show ?thesis unfolding Cons by (simp add: v t d)
qed

lemma takeWhile_before_stop:
  "\<not> P v \<Longrightarrow> takeWhile P (xs @ v # ys) = takeWhile P xs"
  by (induction xs) simp_all

lemma dropWhile_before_stop:
  "\<not> P v \<Longrightarrow> dropWhile P (xs @ v # ys) = dropWhile P xs @ v # ys"
  by (induction xs) simp_all

lemma blank_runs_from_no_blank:
  "\<forall>v \<in> set vs. \<not> is_blank v \<Longrightarrow> blank_runs_from level vs = []"
  by (induction vs arbitrary: level) simp_all

lemma blank_runs_from_last_run:
  assumes "\<not> is_blank v" and "blanks \<noteq> []" and "\<forall>b \<in> set blanks. is_blank b"
  shows "blank_runs_from level (xs @ v # blanks)
           = blank_runs_from level (xs @ [v])
             @ [(level + length xs + 1, level + length xs + length blanks)]"
proof (induction xs arbitrary: level rule: length_induct)
  case (1 xs)
  show ?case
  proof (cases xs)
    case Nil
    have "blank_runs_from (Suc level) blanks = [(Suc level, Suc level + length blanks - 1)]"
      using assms(2,3) by (rule blank_runs_from_all_blank)
    with Nil assms(1,2) show ?thesis by simp
  next
    case (Cons x xs')
    show ?thesis
    proof (cases "is_blank x")
      case False
      have "length xs' < length xs" using Cons by simp
      with "1.IH" have "blank_runs_from (Suc level) (xs' @ v # blanks)
           = blank_runs_from (Suc level) (xs' @ [v])
             @ [(Suc level + length xs' + 1, Suc level + length xs' + length blanks)]"
        by blast
      with False Cons show ?thesis by simp
    next
      case True
      let ?k = "length (takeWhile is_blank xs')"
      let ?d = "dropWhile is_blank xs'"
      have len: "?k + length ?d = length xs'"
        using takeWhile_dropWhile_id[of is_blank xs'] by (metis length_append)
      have "length ?d < length xs"
        using Cons length_dropWhile_le[of is_blank xs'] by simp
      with "1.IH" have ih: "blank_runs_from (Suc level + ?k) (?d @ v # blanks)
           = blank_runs_from (Suc level + ?k) (?d @ [v])
             @ [(Suc level + ?k + length ?d + 1, Suc level + ?k + length ?d + length blanks)]"
        by blast
      have l: "blank_runs_from level (xs @ v # blanks)
          = (level, level + ?k) # blank_runs_from (Suc level + ?k) (?d @ v # blanks)"
        unfolding Cons using True assms(1)
        by (simp add: takeWhile_before_stop dropWhile_before_stop)
      have r: "blank_runs_from level (xs @ [v])
          = (level, level + ?k) # blank_runs_from (Suc level + ?k) (?d @ [v])"
        unfolding Cons using True assms(1)
        by (simp add: takeWhile_before_stop dropWhile_before_stop)
      have n: "Suc level + ?k + length ?d = level + length xs"
        using len Cons by simp
      show ?thesis unfolding l r ih using n by simp
    qed
  qed
qed

lemma blank_runs_last_run:
  assumes "pre = [] \<or> \<not> is_blank v" and "blanks \<noteq> []" and "\<forall>b \<in> set blanks. is_blank b"
  shows "blank_runs (pre @ v # blanks)
           = blank_runs (pre @ [v]) @ [(length pre + 1, length pre + length blanks)]"
proof (cases pre)
  case Nil
  have "blank_runs_from 1 blanks = [(1, 1 + length blanks - 1)]"
    using assms(2,3) by (rule blank_runs_from_all_blank)
  with Nil show ?thesis by (simp add: blank_runs_def)
next
  case (Cons a xs)
  with assms(1) have v: "\<not> is_blank v" by simp
  from blank_runs_from_last_run[OF v assms(2,3), of 1 xs] Cons
  show ?thesis by (simp add: blank_runs_def)
qed

lemma blank_runs_no_inner_blank:
  assumes "pre = [] \<or> \<not> is_blank v" and "\<forall>u \<in> set (drop 1 pre). \<not> is_blank u"
  shows "blank_runs (pre @ [v]) = []"
proof (cases pre)
  case Nil
  then show ?thesis by (simp add: blank_runs_def)
next
  case (Cons a xs)
  with assms have "\<forall>u \<in> set (xs @ [v]). \<not> is_blank u" by auto
  then have "blank_runs_from 1 (xs @ [v]) = []" by (rule blank_runs_from_no_blank)
  with Cons show ?thesis by (simp add: blank_runs_def)
qed

text \<open>
  C3, as the code has it. For a multi-level row index whose keys all have as many
  components as the index has levels, the deriver appends, for the row at position \<open>i\<close>,
  exactly one horizontal merge range for each maximal run of blank components among the
  levels from 1 on, in order: the range of a run goes from the index column of the level
  before the run through the index column of the run's last level, on row \<open>i\<close>. A row
  with several runs yields several ranges. For a key that ends in a run of blanks after
  the component \<open>v\<close> (which is not blank, or is the component of level 0), the last range
  of the row goes from the index column of \<open>v\<close> through the final index column. When no
  component between level 0 and \<open>v\<close> is blank, this is the only range of the row.
\<close>

theorem blank_runs_merged:
  "(df_index df = MultiIndex n ts \<and> (\<forall>idx \<in> set ts. length idx = n) \<longrightarrow>
      get_empty_spans df layout
        = concat (map (\<lambda>(i, idx). map (run_range layout i) (blank_runs idx))
                    (enumerate_from 0 ts)))
   \<and> (length idx = n \<longrightarrow>
        empty_row_step layout n i idx mr = mr @ map (run_range layout i) (blank_runs idx))
   \<and> run_range layout i (s, e)
        = (y_start (index layout) + int i + 1, x_start (index layout) + int s,
           y_start (index layout) + int i + 1, x_start (index layout) + int e + 1)
   \<and> ((pre = [] \<or> \<not> is_blank v) \<and> blanks \<noteq> [] \<and> (\<forall>b \<in> set blanks. is_blank b)
        \<and> length (pre @ v # blanks) = n \<longrightarrow>
        empty_row_step layout n i (pre @ v # blanks) mr
          = mr @ map (run_range layout i) (blank_runs (pre @ [v]))
               @ [(y_start (index layout) + int i + 1,
                   x_start (index layout) + int (length pre) + 1,
                   y_start (index layout) + int i + 1,
                   x_start (index layout) + int n)])
   \<and> ((pre = [] \<or> \<not> is_blank v) \<and> (\<forall>u \<in> set (drop 1 pre). \<not> is_blank u)
        \<and> blanks \<noteq> [] \<and> (\<forall>b \<in> set blanks. is_blank b)
        \<and> length (pre @ v # blanks) = n \<longrightarrow>
        empty_row_step layout n i (pre @ v # blanks) mr
          = mr @ [(y_start (index layout) + int i + 1,
                   x_start (index layout) + int (length pre) + 1,
                   y_start (index layout) + int i + 1,
                   x_start (index layout) + int n)])"
proof -
  have a: "df_index df = MultiIndex n ts \<and> (\<forall>idx \<in> set ts. length idx = n) \<longrightarrow>
      get_empty_spans df layout
        = concat (map (\<lambda>(i, idx). map (run_range layout i) (blank_runs idx))
                    (enumerate_from 0 ts))"
    by (simp add: get_empty_spans_def empty_rows_loop_runs)
  have b: "length idx = n \<longrightarrow>
        empty_row_step layout n i idx mr = mr @ map (run_range layout i) (blank_runs idx)"
    by (simp add: empty_row_step_runs)
  have c: "run_range layout i (s, e)
        = (y_start (index layout) + int i + 1, x_start (index layout) + int s,
           y_start (index layout) + int i + 1, x_start (index layout) + int e + 1)"
    by (rule run_range_coords)
  have d: "empty_row_step layout n i (pre @ v # blanks) mr
          = mr @ map (run_range layout i) (blank_runs (pre @ [v]))
               @ [(y_start (index layout) + int i + 1,
                   x_start (index layout) + int (length pre) + 1,
                   y_start (index layout) + int i + 1,
                   x_start (index layout) + int n)]"
    if h: "(pre = [] \<or> \<not> is_blank v) \<and> blanks \<noteq> [] \<and> (\<forall>b \<in> set blanks. is_blank b)
        \<and> length (pre @ v # blanks) = n"
  proof -
    from h have "blank_runs (pre @ v # blanks)
           = blank_runs (pre @ [v]) @ [(length pre + 1, length pre + length blanks)]"
      using blank_runs_last_run[of pre v blanks] by blast
    moreover from h have "int (length pre + length blanks) + 1 = int n" by auto
    moreover from h have "length (pre @ v # blanks) = n" by blast
    ultimately show ?thesis
      by (simp add: empty_row_step_runs run_range_coords del: run_range.simps)
  qed
  have e: "empty_row_step layout n i (pre @ v # blanks) mr
          = mr @ [(y_start (index layout) + int i + 1,
                   x_start (index layout) + int (length pre) + 1,
                   y_start (index layout) + int i + 1,
                   x_start (index layout) + int n)]"
    if h: "(pre = [] \<or> \<not> is_blank v) \<and> (\<forall>u \<in> set (drop 1 pre). \<not> is_blank u)
        \<and> blanks \<noteq> [] \<and> (\<forall>b \<in> set blanks. is_blank b)
        \<and> length (pre @ v # blanks) = n"
  proof -
    from h have "blank_runs (pre @ [v]) = []"
      using blank_runs_no_inner_blank[of pre v] by blast
    with d h show ?thesis by simp
  qed
  from a b c d e show ?thesis by blast
qed

theorem blank_runs_merged_witness:
  "get_empty_spans
     \<lparr>df_index = MultiIndex 3 [[SStr ''A'', SStr ''x'', SStr ''y''], [SStr ''A'', SNone, SNone]],
      df_index_names = [None, None, None],
      df_columns = Index [SStr ''v''], df_columns_names = [None],
      df_iloc = (\<lambda>i j. NumVal 0)\<rparr>
     (TableLayout 3 2 1 1 False False 0 0)
   = [(3, 1, 3, 3)]
   \<and> empty_row_step (TableLayout 3 2 1 1 False False 0 0) 3 1 [SStr ''A'', SNone, SNone] []
       = [(3, 1, 3, 3)]"
proof -
  let ?df = "\<lparr>df_index = MultiIndex 3 [[SStr ''A'', SStr ''x'', SStr ''y''], [SStr ''A'', SNone, SNone]],
      df_index_names = [None, None, None],
      df_columns = Index [SStr ''v''], df_columns_names = [None],
      df_iloc = (\<lambda>i j. NumVal 0)\<rparr>"
  let ?l = "TableLayout 3 2 1 1 False False 0 0"
  note t = blank_runs_merged[of ?df 3
      "[[SStr ''A'', SStr ''x'', SStr ''y''], [SStr ''A'', SNone, SNone]]" ?l
      "[SStr ''A'', SNone, SNone]" 1 "[]" 1 2 "[]" "SStr ''A''" "[SNone, SNone]"]
  have h1: "df_index ?df = MultiIndex 3 [[SStr ''A'', SStr ''x'', SStr ''y''], [SStr ''A'', SNone, SNone]]
      \<and> (\<forall>idx \<in> set [[SStr ''A'', SStr ''x'', SStr ''y''], [SStr ''A'', SNone, SNone]].
            length idx = 3)"
    by simp
  have h5: "(([]::scalar list) = [] \<or> \<not> is_blank (SStr ''A''))
      \<and> (\<forall>u \<in> set (drop 1 ([]::scalar list)). \<not> is_blank u)
      \<and> [SNone, SNone] \<noteq> [] \<and> (\<forall>b \<in> set [SNone, SNone]. is_blank b)
      \<and> length ([] @ SStr ''A'' # [SNone, SNone]) = 3"
    by (simp add: is_blank_def)
  have r: "blank_runs [SStr ''A'', SStr ''x'', SStr ''y''] = []"
    "blank_runs [SStr ''A'', SNone, SNone] = [(1, 2)]"
    by (simp_all add: blank_runs_def is_blank_def)
  have x: "x_start (index ?l) = 0" "y_start (index ?l) = 1"
    by (simp_all add: TableLayout_def Let_def create_index_layout_def AxisLayout_def
        CellPosition_def x_start_def y_start_def)
  from t h1 have g: "get_empty_spans ?df ?l
        = concat (map (\<lambda>(i, idx). map (run_range ?l i) (blank_runs idx))
                    (enumerate_from 0 [[SStr ''A'', SStr ''x'', SStr ''y''], [SStr ''A'', SNone, SNone]]))"
    by (rule mp[OF conjunct1])
  from t have c: "run_range ?l 1 (1, 2)
        = (y_start (index ?l) + int 1 + 1, x_start (index ?l) + int 1,
           y_start (index ?l) + int 1 + 1, x_start (index ?l) + int 2 + 1)"
    by (rule conjunct1[OF conjunct2[OF conjunct2]])
  from t h5 have s: "empty_row_step ?l 3 1 ([] @ SStr ''A'' # [SNone, SNone]) []
          = [] @ [(y_start (index ?l) + int 1 + 1,
                   x_start (index ?l) + int (length ([]::scalar list)) + 1,
                   y_start (index ?l) + int 1 + 1,
                   x_start (index ?l) + int 3)]"
    by (rule mp[OF conjunct2[OF conjunct2[OF conjunct2[OF conjunct2]]]])
  have g': "get_empty_spans ?df ?l = [(3, 1, 3, 3)]"
    unfolding g using r c x by (simp del: run_range.simps)
  have s': "empty_row_step ?l 3 1 [SStr ''A'', SNone, SNone] [] = [(3, 1, 3, 3)]"
    using s x by simp
  from g' s' show ?thesis by (rule conjI)
qed

text \<open>
  C3 as stated fails: the key \<open>(A, '', x, '')\<close> ends in a run of blanks, and the deriver
  produces two merge ranges on its row, one for the blank at level 1 and one for the
  trailing blank.
\<close>

theorem blank_runs_merged_counterexample:
  "is_blank (last [SStr ''A'', SStr [], SStr ''x'', SStr []])
   \<and> get_empty_spans
       \<lparr>df_index = MultiIndex 4 [[SStr ''A'', SStr [], SStr ''x'', SStr []]],
        df_index_names = [None, None, None, None],
        df_columns = Index [SStr ''v''], df_columns_names = [None],
        df_iloc = (\<lambda>i j. NumVal 0)\<rparr>
       (TableLayout 4 1 1 1 False False 0 0)
     = [(2, 1, 2, 2), (2, 3, 2, 4)]"
  by (simp add: get_empty_spans_def empty_row_step_def is_blank_def empty_span_range_def
      cell_at_def TableLayout_def Let_def create_index_layout_def AxisLayout_def
      CellPosition_def x_start_def y_start_def excel_x_def excel_y_def)

subsection \<open>Disjoint merge ranges\<close>

lemma ranges_overlap_iff: "ranges_overlap r r' = (\<exists>c. covers r c \<and> covers r' c)"
proof (cases r; cases r')
  fix a b c d a' b' c' d'
  assume r: "r = (a, b, c, d)" and r': "r' = (a', b', c', d')"
  show ?thesis
  proof
    assume "ranges_overlap r r'"
    with r r' have "covers r (max a a', max b b') \<and> covers r' (max a a', max b b')"
      by auto
    then show "\<exists>c. covers r c \<and> covers r' c" by blast
  next
    assume "\<exists>c. covers r c \<and> covers r' c"
    then obtain row col where "covers r (row, col)" and "covers r' (row, col)" by auto
    with r r' show "ranges_overlap r r'" by auto
  qed
qed

lemma level_spans_loop_append:
  "level_spans_loop layout b L sps mr = mr @ level_spans_loop layout b L sps []"
proof (induction sps arbitrary: mr)
  case Nil
  then show ?case by simp
next
  case (Cons sp sps)
  have s: "span_merge_range layout b L sp mr = mr @ span_merge_range layout b L sp []"
    by (simp add: span_merge_range_def Let_def)
  show ?case
    using Cons.IH[of "span_merge_range layout b L sp mr"]
      Cons.IH[of "span_merge_range layout b L sp []"]
    by (simp add: s)
qed

lemma levels_loop_append:
  "levels_loop layout b L spss mr = mr @ levels_loop layout b L spss []"
proof (induction spss arbitrary: L mr)
  case Nil
  then show ?case by simp
next
  case (Cons sps spss)
  show ?case
    using Cons.IH[of "Suc L" "level_spans_loop layout b L sps mr"]
      Cons.IH[of "Suc L" "level_spans_loop layout b L sps []"]
      level_spans_loop_append[of layout b L sps mr]
    by simp
qed

lemma level_spans_loop_Cons:
  "level_spans_loop layout b L (sp # sps) []
     = span_merge_range layout b L sp [] @ level_spans_loop layout b L sps []"
  using level_spans_loop_append[of layout b L sps "span_merge_range layout b L sp []"]
  by simp

lemma levels_loop_Cons:
  "levels_loop layout b L (sps # spss) []
     = level_spans_loop layout b L sps [] @ levels_loop layout b (Suc L) spss []"
  using levels_loop_append[of layout b "Suc L" spss "level_spans_loop layout b L sps []"]
  by simp

lemma span_merge_range_row:
  "span_merge_range layout True L sp []
     = (if span_count sp > 1
        then [(y_start layout + int (span_start sp) + 1, x_start layout + int L + 1,
               y_start layout + int (span_start sp) + int (span_count sp),
               x_start layout + int L + 1)]
        else [])"
  by (simp add: span_merge_range_def Let_def cell_at_def CellPosition_def excel_x_def
      excel_y_def)

lemma span_merge_range_column:
  "span_merge_range layout False L sp []
     = (if span_count sp > 1
        then [(y_start layout + int L + 1, x_start layout + int (span_start sp) + 1,
               y_start layout + int L + 1,
               x_start layout + int (span_start sp) + int (span_count sp))]
        else [])"
  by (simp add: span_merge_range_def Let_def cell_at_def CellPosition_def excel_x_def
      excel_y_def)

lemma level_row_disjoint:
  "consecutive_from s sps \<Longrightarrow>
   sorted_wrt (\<lambda>r r'. \<not> ranges_overlap r r') (level_spans_loop layout True L sps [])
   \<and> (\<forall>(sr, sc, er, ec) \<in> set (level_spans_loop layout True L sps []).
         sc = x_start layout + int L + 1 \<and> ec = x_start layout + int L + 1
         \<and> y_start layout + int s + 1 \<le> sr)"
proof (induction sps arbitrary: s)
  case Nil
  then show ?case by simp
next
  case (Cons sp sps)
  then have st: "span_start sp = s" and c: "consecutive_from (s + span_count sp) sps"
    by simp_all
  note ih = Cons.IH[OF c]
  show ?case
    unfolding level_spans_loop_Cons span_merge_range_row
    using ih st by (fastforce simp: sorted_wrt_append)
qed

lemma level_column_disjoint:
  "consecutive_from s sps \<Longrightarrow>
   sorted_wrt (\<lambda>r r'. \<not> ranges_overlap r r') (level_spans_loop layout False L sps [])
   \<and> (\<forall>(sr, sc, er, ec) \<in> set (level_spans_loop layout False L sps []).
         sr = y_start layout + int L + 1 \<and> er = y_start layout + int L + 1
         \<and> x_start layout + int s + 1 \<le> sc)"
proof (induction sps arbitrary: s)
  case Nil
  then show ?case by simp
next
  case (Cons sp sps)
  then have st: "span_start sp = s" and c: "consecutive_from (s + span_count sp) sps"
    by simp_all
  note ih = Cons.IH[OF c]
  show ?case
    unfolding level_spans_loop_Cons span_merge_range_column
    using ih st by (fastforce simp: sorted_wrt_append)
qed

lemma levels_row_disjoint:
  "\<forall>sps \<in> set spss. consecutive_from 0 sps \<Longrightarrow>
   sorted_wrt (\<lambda>r r'. \<not> ranges_overlap r r') (levels_loop layout True L spss [])
   \<and> (\<forall>(sr, sc, er, ec) \<in> set (levels_loop layout True L spss []).
         sc = ec \<and> x_start layout + int L + 1 \<le> sc)"
proof (induction spss arbitrary: L)
  case Nil
  then show ?case by simp
next
  case (Cons sps spss)
  then have c: "consecutive_from 0 sps" and r: "\<forall>sps \<in> set spss. consecutive_from 0 sps"
    by simp_all
  note ih = Cons.IH[OF r, of "Suc L"]
  note lv = level_row_disjoint[OF c, of layout L]
  show ?case
    unfolding levels_loop_Cons
    using ih lv by (fastforce simp: sorted_wrt_append)
qed

lemma levels_column_disjoint:
  "\<forall>sps \<in> set spss. consecutive_from 0 sps \<Longrightarrow>
   sorted_wrt (\<lambda>r r'. \<not> ranges_overlap r r') (levels_loop layout False L spss [])
   \<and> (\<forall>(sr, sc, er, ec) \<in> set (levels_loop layout False L spss []).
         sr = er \<and> y_start layout + int L + 1 \<le> sr)"
proof (induction spss arbitrary: L)
  case Nil
  then show ?case by simp
next
  case (Cons sps spss)
  then have c: "consecutive_from 0 sps" and r: "\<forall>sps \<in> set spss. consecutive_from 0 sps"
    by simp_all
  note ih = Cons.IH[OF r, of "Suc L"]
  note lv = level_column_disjoint[OF c, of layout L]
  show ?case
    unfolding levels_loop_Cons
    using ih lv by (fastforce simp: sorted_wrt_append)
qed


lemma blank_runs_from_lower:
  "(s, e) \<in> set (blank_runs_from level vs) \<Longrightarrow> level \<le> s \<and> s \<le> e"
proof (induction level vs rule: blank_runs_from.induct)
  case (1 level)
  then show ?case by simp
next
  case (2 level v vs)
  show ?case
  proof (cases "is_blank v")
    case True
    with "2.prems" have "(s, e) = (level, level + length (takeWhile is_blank vs))
        \<or> (s, e) \<in> set (blank_runs_from (Suc level + length (takeWhile is_blank vs))
                          (dropWhile is_blank vs))"
      by simp
    then show ?thesis
    proof
      assume "(s, e) = (level, level + length (takeWhile is_blank vs))"
      then show ?thesis by simp
    next
      assume "(s, e) \<in> set (blank_runs_from (Suc level + length (takeWhile is_blank vs))
                          (dropWhile is_blank vs))"
      with "2.IH"(1)[OF True] show ?thesis by simp
    qed
  next
    case False
    with "2.prems" "2.IH"(2)[OF False] show ?thesis by simp
  qed
qed

lemma blank_runs_from_after_run:
  assumes "(s, e) \<in> set (blank_runs_from level (dropWhile is_blank vs))"
  shows "Suc level \<le> s"
proof (cases "dropWhile is_blank vs")
  case Nil
  from assms show ?thesis unfolding Nil by simp
next
  case (Cons w ws)
  have "dropWhile is_blank vs \<noteq> []" unfolding Cons by simp
  then have "\<not> is_blank (hd (dropWhile is_blank vs))" by (rule hd_dropWhile)
  then have w: "\<not> is_blank w" unfolding Cons by simp
  from assms have "(s, e) \<in> set (blank_runs_from level (w # ws))" unfolding Cons .
  with w have "(s, e) \<in> set (blank_runs_from (Suc level) ws)" by simp
  then show ?thesis using blank_runs_from_lower by blast
qed

lemma blank_runs_from_gaps:
  "sorted_wrt (\<lambda>(s, e) (s', e'). e + 2 \<le> s') (blank_runs_from level vs)"
proof (induction level vs rule: blank_runs_from.induct)
  case (1 level)
  then show ?case by simp
next
  case (2 level v vs)
  show ?case
  proof (cases "is_blank v")
    case True
    have "\<forall>(s', e') \<in> set (blank_runs_from (Suc level + length (takeWhile is_blank vs))
                          (dropWhile is_blank vs)).
            level + length (takeWhile is_blank vs) + 2 \<le> s'"
      using blank_runs_from_after_run by fastforce
    with True "2.IH"(1)[OF True] show ?thesis by auto
  next
    case False
    with "2.IH"(2)[OF False] show ?thesis by simp
  qed
qed

lemma row_runs_disjoint:
  "sorted_wrt (\<lambda>r r'. \<not> ranges_overlap r r') (map (run_range layout i) (blank_runs idx))
   \<and> (\<forall>(sr, sc, er, ec) \<in> set (map (run_range layout i) (blank_runs idx)).
         sr = y_start (index layout) + int i + 1 \<and> er = y_start (index layout) + int i + 1)"
proof -
  have r: "run_range layout i (s, e)
     = (y_start (index layout) + int i + 1, x_start (index layout) + int s,
        y_start (index layout) + int i + 1, x_start (index layout) + int e + 1)" for s e
    by (simp add: empty_span_range_def cell_at_def CellPosition_def excel_x_def excel_y_def
        Let_def)
  have g: "sorted_wrt (\<lambda>(s, e) (s', e'). e + 2 \<le> s') (blank_runs idx)"
    unfolding blank_runs_def by (rule blank_runs_from_gaps)
  have "sorted_wrt (\<lambda>p p'. \<not> ranges_overlap (run_range layout i p) (run_range layout i p'))
          (blank_runs idx)"
    by (rule sorted_wrt_mono_rel[OF _ g]) (auto simp: r simp del: run_range.simps)
  then have a: "sorted_wrt (\<lambda>r r'. \<not> ranges_overlap r r')
                  (map (run_range layout i) (blank_runs idx))"
    by (simp add: sorted_wrt_map)
  have b: "\<forall>(sr, sc, er, ec) \<in> set (map (run_range layout i) (blank_runs idx)).
         sr = y_start (index layout) + int i + 1 \<and> er = y_start (index layout) + int i + 1"
    by (auto simp: r simp del: run_range.simps)
  from a b show ?thesis by blast
qed

lemma rows_runs_disjoint:
  "sorted_wrt (\<lambda>r r'. \<not> ranges_overlap r r')
     (concat (map (\<lambda>(i, idx). map (run_range layout i) (blank_runs idx))
                (enumerate_from k ts)))
   \<and> (\<forall>(sr, sc, er, ec) \<in> set (concat (map (\<lambda>(i, idx). map (run_range layout i) (blank_runs idx))
                (enumerate_from k ts))).
         sr = er \<and> y_start (index layout) + int k + 1 \<le> sr)"
proof (induction ts arbitrary: k)
  case Nil
  then show ?case by simp
next
  case (Cons idx ts)
  let ?row = "map (run_range layout k) (blank_runs idx)"
  let ?rest = "concat (map (\<lambda>(i, idx). map (run_range layout i) (blank_runs idx))
                (enumerate_from (Suc k) ts))"
  have ih1: "sorted_wrt (\<lambda>r r'. \<not> ranges_overlap r r') ?rest"
    and ih2: "\<forall>(sr, sc, er, ec) \<in> set ?rest.
                sr = er \<and> y_start (index layout) + int (Suc k) + 1 \<le> sr"
    using Cons.IH[of "Suc k"] by blast+
  have rw1: "sorted_wrt (\<lambda>r r'. \<not> ranges_overlap r r') ?row"
    and rw2: "\<forall>(sr, sc, er, ec) \<in> set ?row.
         sr = y_start (index layout) + int k + 1 \<and> er = y_start (index layout) + int k + 1"
    using row_runs_disjoint[of layout k idx] by blast+
  have cross: "\<not> ranges_overlap r r'" if "r \<in> set ?row" and "r' \<in> set ?rest" for r r'
  proof -
    obtain sr sc er ec where r: "r = (sr, sc, er, ec)" by (cases r)
    obtain sr' sc' er' ec' where r': "r' = (sr', sc', er', ec')" by (cases r')
    from rw2 that(1) r have "er = y_start (index layout) + int k + 1" by blast
    moreover from ih2 that(2) r' have "y_start (index layout) + int (Suc k) + 1 \<le> sr'"
      by blast
    ultimately show ?thesis unfolding r r' by simp
  qed
  have e: "concat (map (\<lambda>(i, idx). map (run_range layout i) (blank_runs idx))
                (enumerate_from k (idx # ts))) = ?row @ ?rest"
    by simp
  have a: "sorted_wrt (\<lambda>r r'. \<not> ranges_overlap r r') (?row @ ?rest)"
    unfolding sorted_wrt_append using ih1 rw1 cross by blast
  have b: "\<forall>(sr, sc, er, ec) \<in> set (?row @ ?rest).
             sr = er \<and> y_start (index layout) + int k + 1 \<le> sr"
  proof
    fix r assume "r \<in> set (?row @ ?rest)"
    then consider "r \<in> set ?row" | "r \<in> set ?rest" by auto
    then show "case r of (sr, sc, er, ec) \<Rightarrow>
                 sr = er \<and> y_start (index layout) + int k + 1 \<le> sr"
    proof cases
      case 1
      with rw2 show ?thesis by fastforce
    next
      case 2
      with ih2 show ?thesis by fastforce
    qed
  qed
  from a b show ?case unfolding e by blast
qed

lemma sorted_wrt_disjoint_nth:
  assumes "sorted_wrt (\<lambda>r r'. \<not> ranges_overlap r r') rs" and "a < b" and "b < length rs"
  shows "\<not> (covers (rs ! a) c \<and> covers (rs ! b) c)"
proof -
  from assms have "\<not> ranges_overlap (rs ! a) (rs ! b)"
    by (rule sorted_wrt_nth_less)
  then have "\<not> (\<exists>c. covers (rs ! a) c \<and> covers (rs ! b) c)"
    unfolding ranges_overlap_iff .
  then show ?thesis by blast
qed

text \<open>
  C1, as the code has it. The merge ranges of one call fall into three lists: the
  column-header merges, the row-header merges and the merges of blank components. Within
  the column-header merges no two ranges at different positions share a cell; the same
  holds within the row-header merges; and, for a row index whose keys all have as many
  components as the index has levels, within the merges of blank components. A row-header
  merge and a merge of blank components may share a cell.
\<close>

theorem merge_ranges_disjoint:
  "(\<forall>a b c. a < b \<and> b < length (column_merges df layout) \<longrightarrow>
       \<not> (covers (column_merges df layout ! a) c \<and> covers (column_merges df layout ! b) c))
   \<and> (\<forall>a b c. a < b \<and> b < length (row_merges df layout) \<longrightarrow>
       \<not> (covers (row_merges df layout ! a) c \<and> covers (row_merges df layout ! b) c))
   \<and> ((\<forall>n ts. df_index df = MultiIndex n ts \<longrightarrow> (\<forall>idx \<in> set ts. length idx = n)) \<longrightarrow>
       (\<forall>a b c. a < b \<and> b < length (get_empty_spans df layout) \<longrightarrow>
          \<not> (covers (get_empty_spans df layout ! a) c
              \<and> covers (get_empty_spans df layout ! b) c)))
   \<and> get_all_merge_ranges df layout
       = row_merges df layout @ column_merges df layout @ get_empty_spans df layout"
proof -
  have cs: "\<forall>sps \<in> set (get_level_spans idx None). consecutive_from 0 sps" for idx
    using get_level_spans_props by blast
  have c: "sorted_wrt (\<lambda>r r'. \<not> ranges_overlap r r') (column_merges df layout)"
    unfolding column_merges_def get_merge_ranges_from_spans_def
    using levels_column_disjoint[OF cs] by blast
  have r: "sorted_wrt (\<lambda>r r'. \<not> ranges_overlap r r') (row_merges df layout)"
    unfolding row_merges_def get_merge_ranges_from_spans_def
    using levels_row_disjoint[OF cs] by blast
  have e: "sorted_wrt (\<lambda>r r'. \<not> ranges_overlap r r') (get_empty_spans df layout)"
    if wf: "\<forall>n ts. df_index df = MultiIndex n ts \<longrightarrow> (\<forall>idx \<in> set ts. length idx = n)"
  proof (cases "df_index df")
    case (Index vs)
    then show ?thesis by (simp add: get_empty_spans_def)
  next
    case (MultiIndex n ts)
    with wf have "\<forall>idx \<in> set ts. length idx = n" by blast
    with MultiIndex show ?thesis
      using rows_runs_disjoint[of layout 0 ts]
      by (simp add: get_empty_spans_def empty_rows_loop_runs)
  qed
  have c': "\<forall>a b c. a < b \<and> b < length (column_merges df layout) \<longrightarrow>
       \<not> (covers (column_merges df layout ! a) c \<and> covers (column_merges df layout ! b) c)"
    using sorted_wrt_disjoint_nth[OF c] by blast
  have r': "\<forall>a b c. a < b \<and> b < length (row_merges df layout) \<longrightarrow>
       \<not> (covers (row_merges df layout ! a) c \<and> covers (row_merges df layout ! b) c)"
    using sorted_wrt_disjoint_nth[OF r] by blast
  have e': "(\<forall>n ts. df_index df = MultiIndex n ts \<longrightarrow> (\<forall>idx \<in> set ts. length idx = n)) \<longrightarrow>
       (\<forall>a b c. a < b \<and> b < length (get_empty_spans df layout) \<longrightarrow>
          \<not> (covers (get_empty_spans df layout ! a) c
              \<and> covers (get_empty_spans df layout ! b) c))"
  proof
    assume "\<forall>n ts. df_index df = MultiIndex n ts \<longrightarrow> (\<forall>idx \<in> set ts. length idx = n)"
    then have "sorted_wrt (\<lambda>r r'. \<not> ranges_overlap r r') (get_empty_spans df layout)"
      by (rule e)
    then show "\<forall>a b c. a < b \<and> b < length (get_empty_spans df layout) \<longrightarrow>
          \<not> (covers (get_empty_spans df layout ! a) c
              \<and> covers (get_empty_spans df layout ! b) c)"
      using sorted_wrt_disjoint_nth by blast
  qed
  have g: "get_all_merge_ranges df layout
       = row_merges df layout @ column_merges df layout @ get_empty_spans df layout"
    by (simp add: get_all_merge_ranges_def)
  from c' r' e' g show ?thesis by (intro conjI)
qed


theorem merge_ranges_disjoint_witness:
  "column_merges
     \<lparr>df_index = MultiIndex 2 [[SStr ''A'', SStr ''x''], [SStr ''A'', SStr []]],
      df_index_names = [None, None],
      df_columns = MultiIndex 2 [[SStr ''Q1'', SStr ''a''], [SStr ''Q1'', SStr ''b''],
                                 [SStr ''Q2'', SStr ''a''], [SStr ''Q2'', SStr ''b'']],
      df_columns_names = [None, None],
      df_iloc = (\<lambda>i j. NumVal 0)\<rparr>
     (TableLayout 2 2 4 2 False False 0 0)
   = [(1, 3, 1, 4), (1, 5, 1, 6)]
   \<and> \<not> (covers (1, 3, 1, 4) (1, 4) \<and> covers (1, 5, 1, 6) (1, 4))"
proof -
  let ?df = "\<lparr>df_index = MultiIndex 2 [[SStr ''A'', SStr ''x''], [SStr ''A'', SStr []]],
      df_index_names = [None, None],
      df_columns = MultiIndex 2 [[SStr ''Q1'', SStr ''a''], [SStr ''Q1'', SStr ''b''],
                                 [SStr ''Q2'', SStr ''a''], [SStr ''Q2'', SStr ''b'']],
      df_columns_names = [None, None],
      df_iloc = (\<lambda>i j. NumVal 0)\<rparr>"
  let ?l = "TableLayout 2 2 4 2 False False 0 0"
  have c: "column_merges ?df ?l = [(1, 3, 1, 4), (1, 5, 1, 6)]"
    by code_simp
  have i: "(0::nat) < 1 \<and> 1 < length (column_merges ?df ?l)"
    unfolding c by simp
  have "\<not> (covers (column_merges ?df ?l ! 0) (1, 4) \<and> covers (column_merges ?df ?l ! 1) (1, 4))"
    by (rule mp[OF spec[OF spec[OF spec[OF conjunct1[OF merge_ranges_disjoint]]]] i])
  then have "\<not> (covers (1, 3, 1, 4) (1, 4) \<and> covers (1, 5, 1, 6) (1, 4))"
    unfolding c by simp
  with c show ?thesis by (rule conjI)
qed

text \<open>
  C1 as stated fails for the row axis. For the row keys \<open>(A, x, y)\<close> and
  \<open>(A, None, None)\<close> the row-header merges hold the vertical merge of the two \<open>A\<close>
  cells, the merges of blank components hold the horizontal merge of the second row, and
  both cover the cell in row 3, column 1.
\<close>

theorem merge_ranges_disjoint_counterexample:
  "row_merges
     \<lparr>df_index = MultiIndex 3 [[SStr ''A'', SStr ''x'', SStr ''y''], [SStr ''A'', SNone, SNone]],
      df_index_names = [None, None, None],
      df_columns = Index [SStr ''v''], df_columns_names = [None],
      df_iloc = (\<lambda>i j. NumVal 0)\<rparr>
     (TableLayout 3 2 1 1 False False 0 0)
   = [(2, 1, 3, 1)]
   \<and> get_empty_spans
     \<lparr>df_index = MultiIndex 3 [[SStr ''A'', SStr ''x'', SStr ''y''], [SStr ''A'', SNone, SNone]],
      df_index_names = [None, None, None],
      df_columns = Index [SStr ''v''], df_columns_names = [None],
      df_iloc = (\<lambda>i j. NumVal 0)\<rparr>
     (TableLayout 3 2 1 1 False False 0 0)
   = [(3, 1, 3, 3)]
   \<and> (2, 1, 3, 1) \<noteq> ((3, 1, 3, 3) :: MergeRange)
   \<and> covers (2, 1, 3, 1) (3, 1) \<and> covers (3, 1, 3, 3) (3, 1)"
  by code_simp

end
